theory Spec2Isabelle
  imports Complex_Main "HOL-Library.Sublist"
begin

section \<open>Data model of the on-the-fly update controller (leapfrog.py)\<close>

text \<open>
  Python floats and tensor entries are modelled as exact reals, Python integers as
  \<open>int\<close>. Exceptions are values of \<open>error\<close>. The log file and the trajectory file are
  write-only outputs of the controller and are left out.
\<close>

type_synonym vec3 = "real \<times> real \<times> real"

datatype error = AttributeError | IndexError | ValueError | ZeroDivisionError | RuntimeError

text \<open>
  A structure (TorchAtoms) is opaque for the controller: it is copied, handed to the
  calculators and iterated for its local environments. Here it is a key that stands for
  the geometry, with the keys of its local environments, one per atom.
\<close>

record atoms =
  key :: nat
  loc :: "nat list"

text \<open>
  The result of \<open>snapshot\<close>: a copy of a structure whose targets are fixed by a
  SinglePointCalculator.
\<close>

record snap =
  struct :: atoms
  target_energy :: real
  target_forces :: "vec3 list"

text \<open>
  The calls the controller makes on the surrogate potential, in the order they are made.
  This history is instrumentation: no function of the model reads it.
\<close>

datatype call = Add_1atoms snap | Add_1inducing nat | Pop_1data | Pop_1inducing

record surrogate =
  data :: "snap list"
  X :: "nat list"
  calls :: "call list"

datatype algo = Robust | Fast | Fastfast | Ultrafast

record leapfrog =
  step :: int
  fp :: "int list"
  fp_e :: "real list"
  ext :: "int list"
  energy :: "real list"
  temperature :: "real list"
  volatile_thr :: int
  ediff :: real
  fdiff :: "real option"
  skip :: int
  skip_volatile :: int
  algorithm :: algo
  data_plus :: "int option"
  ref_plus :: "int option"
  model :: surrogate
  live :: atoms
  results :: "real option"
  draws :: nat

text \<open>
  What the controller consumes from outside leapfrog.py: the reference calculator, the
  predictions of the surrogate, the magnitudes its insertion primitives report, the
  integrator and the random source. They are parameters of the model.
\<close>

record env =
  ref_energy :: "atoms \<Rightarrow> real"
  ref_forces :: "atoms \<Rightarrow> vec3 list"
  pot_energy :: "snap list \<Rightarrow> nat list \<Rightarrow> atoms \<Rightarrow> real"
  pot_forces :: "snap list \<Rightarrow> nat list \<Rightarrow> atoms \<Rightarrow> vec3 list"
  pot_stress :: "snap list \<Rightarrow> nat list \<Rightarrow> atoms \<Rightarrow> real list"
  kinetic_temperature :: "atoms \<Rightarrow> real"
  inducing_change :: "snap list \<Rightarrow> nat list \<Rightarrow> nat \<Rightarrow> real"
  atoms_change :: "snap list \<Rightarrow> nat list \<Rightarrow> snap \<Rightarrow> real \<times> real"
  atoms_accept :: "snap list \<Rightarrow> nat list \<Rightarrow> snap \<Rightarrow> real \<Rightarrow> real option \<Rightarrow> bool"
  leakages :: "snap list \<Rightarrow> nat list \<Rightarrow> nat list \<Rightarrow> real list"
  dyn_run :: "snap list \<Rightarrow> nat list \<Rightarrow> atoms \<Rightarrow> atoms"
  coin :: "nat \<Rightarrow> bool"

section \<open>The per-step decision\<close>

definition sizes :: "leapfrog \<Rightarrow> nat \<times> nat" where
  "sizes s = (length (data (model s)), length (X (model s)))"

definition volatile :: "leapfrog \<Rightarrow> bool" where
  "volatile s = (int (length (ext s)) \<le> volatile_thr s)"

text \<open>
  \<open>np.random.choice([True, False], p=[prob, 1-prob])\<close>: numpy raises ValueError for a
  probability outside [0, 1]; the outcome is certain for 0 and 1 and otherwise the next
  draw of the random source. Every call consumes one draw.
\<close>

definition choice :: "env \<Rightarrow> real \<Rightarrow> leapfrog \<Rightarrow> error + (bool \<times> leapfrog)" where
  "choice e prob s =
     (if prob < 0 \<or> 1 < prob then Inl ValueError
      else Inr (if prob = 1 then True else if prob = 0 then False else coin e (draws s),
                s\<lparr>draws := Suc (draws s)\<rparr>))"

text \<open>The block of \<open>doit\<close> under \<open># check\<close>: is the last energy step an extremum?\<close>

definition check :: "leapfrog \<Rightarrow> bool" where
  "check s =
     (let n = length (energy s) in
      if 3 \<le> n then
        (let d1 = energy s ! (n - 1) - energy s ! (n - 2);
             d2 = energy s ! (n - 2) - energy s ! (n - 3)
         in if d1 * d2 < 0
            then (if 0 < length (ext s) \<and> step s - last (ext s) = 1 then False else True)
            else False)
      else False)"

definition doit :: "env \<Rightarrow> real \<Rightarrow> leapfrog \<Rightarrow> error + (bool \<times> leapfrog)" where
  "doit e prob s =
     (let flag = check s;
          lastfp = (if length (fp s) = 0 then 0 else last (fp s))
      in if flag then
           (let s1 = s\<lparr>ext := ext s @ [step s]\<rparr>
            in if \<not> volatile s1 \<and> last (ext s1) - lastfp < skip s1 then Inr (False, s1)
               else choice e prob s1)
         else if volatile s \<and> ((step s = 0 \<and> length (fp s) = 0)
                               \<or> skip_volatile s < step s - lastfp)
              then Inr (True, s)
              else Inr (False, s))"

section \<open>The surrogate potential as the controller uses it\<close>

text \<open>
  Modelled from the spec: the class PosteriorPotential (theforce.regression.gppotential)
  is not among the source files. The spec gives its interface: a training set of whole
  structures and a set of inducing local environments whose sizes can be read; one
  structure or one inducing point is added at a time, the call reports the magnitude of
  the change and the entry stays only if the acceptance threshold is met; removal takes
  the entry added last. Removing from an empty set is an error.
\<close>

definition add_1inducing :: "env \<Rightarrow> surrogate \<Rightarrow> nat \<Rightarrow> real \<Rightarrow> real \<times> surrogate" where
  "add_1inducing e m l ed =
     (let change = inducing_change e (data m) (X m) l
      in (change, m\<lparr>X := (if ed \<le> change then X m @ [l] else X m),
                      calls := calls m @ [Add_1inducing l]\<rparr>))"

definition add_1atoms ::
  "env \<Rightarrow> surrogate \<Rightarrow> snap \<Rightarrow> real \<Rightarrow> real option \<Rightarrow> (real \<times> real) \<times> surrogate" where
  "add_1atoms e m new ed fd =
     (let change = atoms_change e (data m) (X m) new;
          ok = atoms_accept e (data m) (X m) new ed fd
      in (change, m\<lparr>data := (if ok then data m @ [new] else data m),
                      calls := calls m @ [Add_1atoms new]\<rparr>))"

definition pop_1data :: "surrogate \<Rightarrow> error + surrogate" where
  "pop_1data m =
     (if data m = [] then Inl IndexError
      else Inr (m\<lparr>data := butlast (data m), calls := calls m @ [Pop_1data]\<rparr>))"

definition pop_1inducing :: "surrogate \<Rightarrow> error + surrogate" where
  "pop_1inducing m =
     (if X m = [] then Inl IndexError
      else Inr (m\<lparr>X := butlast (X m), calls := calls m @ [Pop_1inducing]\<rparr>))"

section \<open>Snapshots and the update algorithms\<close>

text \<open>
  The calculator attached to the live structure keeps its last results until the structure
  moves or the results are cleared; \<open>cached\<close> reads the energy through it.
\<close>

definition cached :: "env \<Rightarrow> leapfrog \<Rightarrow> real \<times> leapfrog" where
  "cached e s =
     (case results s of
        Some v \<Rightarrow> (v, s)
      | None \<Rightarrow> (let v = pot_energy e (data (model s)) (X (model s)) (live s)
                 in (v, s\<lparr>results := Some v\<rparr>)))"

definition snapshot :: "env \<Rightarrow> bool \<Rightarrow> atoms option \<Rightarrow> leapfrog \<Rightarrow> snap \<times> leapfrog" where
  "snapshot e fake copy s =
     (let c = (case copy of None \<Rightarrow> live s | Some a \<Rightarrow> a)
      in if fake then
           (let (en, s1) = cached e s;
                fo = pot_forces e (data (model s)) (X (model s)) (live s)
            in (\<lparr>struct = c, target_energy = en, target_forces = fo\<rparr>, s1))
         else
           (let en = ref_energy e c;
                fo = ref_forces e c
            in (\<lparr>struct = c, target_energy = en, target_forces = fo\<rparr>,
                s\<lparr>fp := fp s @ [step s], fp_e := fp_e s @ [en]\<rparr>)))"

text \<open>\<open>torch.finfo().tiny\<close> of the default dtype float32.\<close>

definition tiny :: real where
  "tiny = 1 / 2 ^ 126"

text \<open>\<open>self.ediff if self.sizes[1] > 1 else torch.finfo().tiny\<close>\<close>

definition threshold :: "leapfrog \<Rightarrow> real" where
  "threshold s = (if 1 < snd (sizes s) then ediff s else tiny)"

text \<open>\<open>self.model.add_1atoms(new, self.ediff, self.fdiff)\<close>\<close>

definition model_add_1atoms :: "env \<Rightarrow> snap \<Rightarrow> leapfrog \<Rightarrow> leapfrog" where
  "model_add_1atoms e new s = s\<lparr>model := snd (add_1atoms e (model s) new (ediff s) (fdiff s))\<rparr>"

text \<open>The loop of \<open>algorithm_robust\<close> over \<open>new.loc\<close>.\<close>

fun robust_loop :: "env \<Rightarrow> nat list \<Rightarrow> leapfrog \<Rightarrow> leapfrog" where
  "robust_loop e [] s = s"
| "robust_loop e (l # ls) s =
     robust_loop e ls (s\<lparr>model := snd (add_1inducing e (model s) l (threshold s))\<rparr>)"

definition algorithm_robust :: "env \<Rightarrow> bool option \<Rightarrow> leapfrog \<Rightarrow> leapfrog" where
  "algorithm_robust e datafirst s =
     (let (new, s1) = snapshot e False None s;
          (df, s2) = (case datafirst of
                        None \<Rightarrow> (coin e (draws s1), s1\<lparr>draws := Suc (draws s1)\<rparr>)
                      | Some b \<Rightarrow> (b, s1));
          s3 = (if df then model_add_1atoms e new s2 else s2);
          s4 = robust_loop e (loc (struct new)) s3
      in if \<not> df then model_add_1atoms e new s4 else s4)"

text \<open>The loop of \<open>algorithm_fast\<close> over the local environments of the live structure.\<close>

fun fast_loop :: "env \<Rightarrow> nat list \<Rightarrow> nat \<times> leapfrog \<Rightarrow> nat \<times> leapfrog" where
  "fast_loop e [] (added_refs, s) = (added_refs, s)"
| "fast_loop e (l # ls) (added_refs, s) =
     (let ed = threshold s;
          (change, m) = add_1inducing e (model s) l ed
      in fast_loop e ls (if ed \<le> change then added_refs + 1 else added_refs, s\<lparr>model := m\<rparr>))"

definition algorithm_fast :: "env \<Rightarrow> leapfrog \<Rightarrow> leapfrog" where
  "algorithm_fast e s =
     (let (added_refs, s1) = fast_loop e (loc (live s)) (0, s)
      in if 0 < added_refs
         then (let (new, s2) = snapshot e False None s1 in model_add_1atoms e new s2)
         else s1)"

text \<open>
  \<open>torch.argsort(leaks, descending=True)\<close>. Equal scores keep their order here; torch
  leaves their order open.
\<close>

definition argsort_desc :: "real list \<Rightarrow> nat list" where
  "argsort_desc leaks = sort_key (\<lambda>k. - (leaks ! k)) [0..<length leaks]"

text \<open>
  The loop shared by \<open>algorithm_fastfast\<close> and \<open>algorithm_ultrafast\<close>: it follows the
  ranking and stops at the first change under the threshold. \<open>locs[k]\<close> raises outside
  the list.
\<close>

fun ranked_loop :: "env \<Rightarrow> nat list \<Rightarrow> nat list \<Rightarrow> nat \<times> leapfrog \<Rightarrow> error + (nat \<times> leapfrog)" where
  "ranked_loop e locs [] (added_refs, s) = Inr (added_refs, s)"
| "ranked_loop e locs (k # ks) (added_refs, s) =
     (if length locs \<le> k then Inl IndexError
      else (let ed = threshold s;
                (change, m) = add_1inducing e (model s) (locs ! k) ed
            in if ed \<le> change then ranked_loop e locs ks (added_refs + 1, s\<lparr>model := m\<rparr>)
               else Inr (added_refs, s\<lparr>model := m\<rparr>)))"

definition ranked :: "env \<Rightarrow> leapfrog \<Rightarrow> error + (nat \<times> leapfrog)" where
  "ranked e s =
     (let locs = loc (live s);
          leaks = leakages e (data (model s)) (X (model s)) locs;
          q = argsort_desc leaks
      in ranked_loop e locs q (0, s))"

definition algorithm_fastfast :: "env \<Rightarrow> leapfrog \<Rightarrow> error + leapfrog" where
  "algorithm_fastfast e s =
     (case ranked e s of
        Inl er \<Rightarrow> Inl er
      | Inr (added_refs, s1) \<Rightarrow>
          if 0 < added_refs
          then (let (new, s2) = snapshot e False None s1 in Inr (model_add_1atoms e new s2))
          else Inr s1)"

definition algorithm_ultrafast :: "env \<Rightarrow> leapfrog \<Rightarrow> error + leapfrog" where
  "algorithm_ultrafast e s =
     (case ranked e s of
        Inl er \<Rightarrow> Inl er
      | Inr (added_refs, s1) \<Rightarrow>
          if 0 < added_refs then
            (let a = length (data (model s1));
                 (new, s2) = snapshot e True None s1;
                 s3 = model_add_1atoms e new s2
             in if a < length (data (model s3)) then
                  (case pop_1data (model s3) of
                     Inl er \<Rightarrow> Inl er
                   | Inr m \<Rightarrow>
                       (let (new2, s5) = snapshot e False (Some (struct new)) (s3\<lparr>model := m\<rparr>)
                        in Inr (model_add_1atoms e new2 s5)))
                else Inr s3)
          else Inr s1)"

section \<open>Applying and undoing an update\<close>

text \<open>
  \<open>self.algorithm\<close> is bound at construction to one of the four methods by name (a
  caller may also bind a routine of its own, which is outside this model). Called without
  arguments, \<open>algorithm_robust\<close> inserts the data first.
\<close>

definition run_algorithm :: "env \<Rightarrow> leapfrog \<Rightarrow> error + leapfrog" where
  "run_algorithm e s =
     (case algorithm s of
        Robust \<Rightarrow> Inr (algorithm_robust e (Some True) s)
      | Fast \<Rightarrow> Inr (algorithm_fast e s)
      | Fastfast \<Rightarrow> algorithm_fastfast e s
      | Ultrafast \<Rightarrow> algorithm_ultrafast e s)"

definition update_model :: "env \<Rightarrow> leapfrog \<Rightarrow> error + (bool \<times> leapfrog)" where
  "update_model e s =
     (let size1 = sizes s
      in case (if volatile s then Inr (algorithm_robust e (Some True) s) else run_algorithm e s) of
           Inl er \<Rightarrow> Inl er
         | Inr s1 \<Rightarrow>
             (let size2 = sizes s1;
                  dp = int (fst size2) - int (fst size1);
                  rp = int (snd size2) - int (snd size1);
                  tf = (0 < dp \<or> 0 < rp);
                  s2 = s1\<lparr>data_plus := Some dp, ref_plus := Some rp\<rparr>
              in Inr (tf, if tf then s2\<lparr>results := None\<rparr> else s2)))"

text \<open>The two \<open>while\<close> loops of \<open>undo_update\<close>.\<close>

function pop_data_while :: "int \<Rightarrow> surrogate \<Rightarrow> error + surrogate" where
  "pop_data_while d m =
     (if 0 < d then (case pop_1data m of Inl er \<Rightarrow> Inl er | Inr m1 \<Rightarrow> pop_data_while (d - 1) m1)
      else Inr m)"
  by pat_completeness auto
termination
  by (relation "measure (\<lambda>(d, m). nat d)") auto

function pop_inducing_while :: "int \<Rightarrow> surrogate \<Rightarrow> error + surrogate" where
  "pop_inducing_while i m =
     (if 0 < i then (case pop_1inducing m of Inl er \<Rightarrow> Inl er | Inr m1 \<Rightarrow> pop_inducing_while (i - 1) m1)
      else Inr m)"
  by pat_completeness auto
termination
  by (relation "measure (\<lambda>(i, m). nat i)") auto

text \<open>
  \<open>data_plus\<close> and \<open>ref_plus\<close> are attributes that only \<open>update_model\<close> creates: reading
  them before the first update raises AttributeError.
\<close>

definition undo_update :: "leapfrog \<Rightarrow> error + leapfrog" where
  "undo_update s =
     (case data_plus s of
        None \<Rightarrow> Inl AttributeError
      | Some d \<Rightarrow>
          (case ref_plus s of
             None \<Rightarrow> Inl AttributeError
           | Some i \<Rightarrow>
               (case pop_data_while d (model s) of
                  Inl er \<Rightarrow> Inl er
                | Inr m1 \<Rightarrow>
                    (case pop_inducing_while i m1 of
                       Inl er \<Rightarrow> Inl er
                     | Inr m2 \<Rightarrow> Inr (s\<lparr>model := m2\<rparr>)))))"

section \<open>Running until a number of updates\<close>









section \<open>Pair kernels (pair.py)\<close>

text \<open>
  Tensors are lists of reals and of 3-vectors, in exact arithmetic. The base kernel
  (\<open>self.kern\<close>) lives outside pair.py: it is a function of two descriptor values, and a
  call on a column of n values and a column of m values gives the n by m matrix of its
  values. The model is meant for nonzero distances: at a zero distance torch produces
  inf or nan, for which the reals have no counterpart.
\<close>

record base_kernel =
  kern :: "real \<Rightarrow> real \<Rightarrow> real"
  kern_leftgrad :: "real \<Rightarrow> real \<Rightarrow> real"

definition matrix :: "(real \<Rightarrow> real \<Rightarrow> real) \<Rightarrow> real list \<Rightarrow> real list \<Rightarrow> real list list" where
  "matrix f xs ys = map (\<lambda>x. map (\<lambda>y. f x y) ys) xs"

definition vadd :: "vec3 \<Rightarrow> vec3 \<Rightarrow> vec3" where
  "vadd a b = (case a of (x, y, z) \<Rightarrow> case b of (x', y', z') \<Rightarrow> (x + x', y + y', z + z'))"

definition vneg :: "vec3 \<Rightarrow> vec3" where
  "vneg a = (case a of (x, y, z) \<Rightarrow> (- x, - y, - z))"

definition smul :: "real \<Rightarrow> vec3 \<Rightarrow> vec3" where
  "smul c a = (case a of (x, y, z) \<Rightarrow> (c * x, c * y, c * z))"

definition sdiv :: "vec3 \<Rightarrow> real \<Rightarrow> vec3" where
  "sdiv a c = (case a of (x, y, z) \<Rightarrow> (x / c, y / c, z / c))"

text \<open>The sum of a list of 3-vectors (\<open>.sum(dim=...)\<close> over that axis).\<close>

definition vsum :: "vec3 list \<Rightarrow> vec3" where
  "vsum vs = (sum_list (map fst vs), sum_list (map (fst \<circ> snd) vs), sum_list (map (snd \<circ> snd) vs))"

definition zeros :: "nat \<Rightarrow> vec3 list" where
  "zeros n = replicate n (0, 0, 0)"

text \<open>
  \<open>t.index_add(0, index, source)\<close>: row k of the source is added to row index[k]. An index
  outside the tensor and a source of another length than the index are errors.
\<close>

fun index_add :: "vec3 list \<Rightarrow> nat list \<Rightarrow> vec3 list \<Rightarrow> error + vec3 list" where
  "index_add t [] [] = Inr t"
| "index_add t (k # ks) (c # cs) =
     (if k < length t then index_add (t[k := vadd (t ! k) c]) ks cs else Inl IndexError)"
| "index_add t ks cs = Inl RuntimeError"

text \<open>\<open>(c[:, None] * u[..., None]).sum(dim=-1)\<close> for an n by m matrix c and n vectors u.\<close>

definition contract :: "real list list \<Rightarrow> vec3 list \<Rightarrow> vec3 list" where
  "contract c us = map (\<lambda>(row, u). vsum (map (\<lambda>w. smul w u) row)) (zip c us)"

subsection \<open>Descriptors\<close>

definition norm3 :: "vec3 \<Rightarrow> real" where
  "norm3 r = (case r of (x, y, z) \<Rightarrow> sqrt (x\<^sup>2 + y\<^sup>2 + z\<^sup>2))"


text \<open>\<open>LogDistanceKernel.descriptor\<close>\<close>

definition logdistance_descriptor :: "vec3 list \<Rightarrow> real list \<times> vec3 list" where
  "logdistance_descriptor rs =
     (let d = map norm3 rs;
          grad = map (\<lambda>(r, d). sdiv r (d\<^sup>2)) (zip rs d)
      in (map ln d, grad))"

subsection \<open>Kernels on local environments (PairSimilarityKernel)\<close>

text \<open>
  The rows that \<open>loc.select(a, b, bothways=False)\<close> leaves of a local environment, and
  what \<open>calculate\<close> saves of them for the value and the gradients. (It also saves the
  both-ways selection for \<open>gradgraddiag\<close>, which is not modelled.)
\<close>

record loc_row =
  loc_i :: nat
  loc_j :: nat
  loc_r :: vec3

record saved =
  sv_value :: "real list"
  sv_grad :: "(vec3 \<times> vec3) list"
  sv_indices :: "(nat \<times> nat) list"

definition calculate :: "(vec3 list \<Rightarrow> real list \<times> vec3 list) \<Rightarrow> loc_row list \<Rightarrow> saved" where
  "calculate descriptor rows =
     (let (d, grad) = descriptor (map loc_r rows)
      in \<lparr>sv_value = d,
          sv_grad = map (\<lambda>g. (g, vneg g)) grad,
          sv_indices = map (\<lambda>row. (loc_j row, loc_i row)) rows\<rparr>)"

text \<open>
  \<open>PairSimilarityKernel.leftgrad\<close>. The result has one 3-vector per atom; the final
  \<open>view(-1, 1)\<close> lays the same entries out as one column.
\<close>

definition pair_leftgrad :: "base_kernel \<Rightarrow> nat \<Rightarrow> saved \<Rightarrow> real list \<Rightarrow> error + vec3 list" where
  "pair_leftgrad K natoms p rd =
     (let ld = sv_value p;
          lgrad = sv_grad p;
          li = concat (map (\<lambda>(a, b). [a, b]) (sv_indices p));
          kl = matrix (kern_leftgrad K) ld rd;
          c = concat (map (\<lambda>(row, g). [vsum (map (\<lambda>w. smul w (fst g)) row),
                                          vsum (map (\<lambda>w. smul w (snd g)) row)]) (zip kl lgrad))
      in index_add (zeros natoms) li c)"

subsection \<open>Kernels on whole systems\<close>

text \<open>
  A system with the rows that \<open>select(a, b, bothways=False)\<close> leaves: the atoms of the
  pair, its distance and its unit vector.
\<close>

record pair_row =
  row_i :: nat
  row_j :: nat
  row_d :: real
  row_u :: vec3

record system =
  natoms :: nat
  selected :: "pair_row list"

text \<open>\<open>DistanceSimilarity.leftgrad\<close>\<close>

definition distance_leftgrad :: "base_kernel \<Rightarrow> system \<Rightarrow> system \<Rightarrow> error + vec3 list" where
  "distance_leftgrad K p q =
     (let m1 = selected p;
          m2 = selected q;
          c = contract (matrix (kern_leftgrad K) (map row_d m1) (map row_d m2)) (map row_u m1)
      in case index_add (zeros (natoms p)) (map row_i m1) (map vneg c) of
           Inl er \<Rightarrow> Inl er
         | Inr t \<Rightarrow> index_add t (map row_j m1) c)"

text \<open>\<open>CoulombPairSimilarity.func\<close> and \<open>leftgrad\<close>\<close>

definition coulomb_func :: "base_kernel \<Rightarrow> system \<Rightarrow> system \<Rightarrow> real" where
  "coulomb_func K p q =
     (let m1 = selected p;
          m2 = selected q;
          c = matrix (\<lambda>x y. kern K x y / (x * y)) (map row_d m1) (map row_d m2)
      in sum_list (concat c))"

definition coulomb_leftgrad :: "base_kernel \<Rightarrow> system \<Rightarrow> system \<Rightarrow> error + vec3 list" where
  "coulomb_leftgrad K p q =
     (let m1 = selected p;
          m2 = selected q;
          c = matrix (\<lambda>x y. (kern_leftgrad K x y - kern K x y / x) / (x * y))
                (map row_d m1) (map row_d m2);
          c = contract c (map row_u m1)
      in case index_add (zeros (natoms p)) (map row_i m1) c of
           Inl er \<Rightarrow> Inl er
         | Inr t \<Rightarrow> map_sum id (map vneg) (index_add t (map row_j m1) (map vneg c)))"

text \<open>
  \<open>RepulsiveCoreSimilarity.func\<close> and \<open>leftgrad\<close>; \<open>x ** eta\<close> is the real power of a
  positive base.
\<close>

definition repulsive_func :: "base_kernel \<Rightarrow> real \<Rightarrow> system \<Rightarrow> system \<Rightarrow> real" where
  "repulsive_func K eta p q =
     (let m1 = selected p;
          m2 = selected q;
          c = matrix (\<lambda>x y. kern K x y / (x * y) powr eta) (map row_d m1) (map row_d m2)
      in sum_list (concat c))"

definition repulsive_leftgrad :: "base_kernel \<Rightarrow> real \<Rightarrow> system \<Rightarrow> system \<Rightarrow> error + vec3 list" where
  "repulsive_leftgrad K eta p q =
     (let m1 = selected p;
          m2 = selected q;
          c = matrix (\<lambda>x y. (kern_leftgrad K x y - eta * kern K x y / x) / (x * y) powr eta)
                (map row_d m1) (map row_d m2);
          c = contract c (map row_u m1)
      in case index_add (zeros (natoms p)) (map row_i m1) c of
           Inl er \<Rightarrow> Inl er
         | Inr t \<Rightarrow> map_sum id (map vneg) (index_add t (map row_j m1) (map vneg c)))"

section \<open>Auxiliary notions\<close>



text \<open>A surrogate extends another when both of its sets have the other's as a prefix.\<close>

definition extends :: "surrogate \<Rightarrow> surrogate \<Rightarrow> bool" where
  "extends m m' = (prefix (data m) (data m') \<and> prefix (X m) (X m'))"

section \<open>Concrete inputs\<close>

text \<open>
  An environment in which nothing is ever accepted by the surrogate, and the state of a
  controller built without a model (threshold of volatility 2) on a structure of two atoms.
\<close>

definition quiet_env :: env where
  "quiet_env =
     \<lparr>ref_energy = (\<lambda>a. 2), ref_forces = (\<lambda>a. []),
      pot_energy = (\<lambda>d x a. 1), pot_forces = (\<lambda>d x a. []), pot_stress = (\<lambda>d x a. [0]),
      kinetic_temperature = (\<lambda>a. 0),
      inducing_change = (\<lambda>d x l. 0), atoms_change = (\<lambda>d x n. (0, 0)),
      atoms_accept = (\<lambda>d x n ed fd. False),
      leakages = (\<lambda>d x ls. map (\<lambda>l. 0) ls),
      dyn_run = (\<lambda>d x a. a), coin = (\<lambda>k. False)\<rparr>"

definition start_state :: leapfrog where
  "start_state =
     \<lparr>step = 0, fp = [], fp_e = [], ext = [], energy = [1], temperature = [0],
      volatile_thr = 2, ediff = 1 / 10, fdiff = None, skip = 10, skip_volatile = 3,
      algorithm = Fast, data_plus = None, ref_plus = None,
      model = \<lparr>data = [], X = [], calls = []\<rparr>,
      live = \<lparr>key = 0, loc = [0, 1]\<rparr>, results = None, draws = 0\<rparr>"

text \<open>
  An environment in which every insertion is accepted, and the states the controller
  reaches from \<open>start_state\<close> by one and by two updates in it.
\<close>

definition eager_env :: env where
  "eager_env = quiet_env\<lparr>inducing_change := (\<lambda>d x l. 1), atoms_accept := (\<lambda>d x n ed fd. True)\<rparr>"

definition first_snap :: snap where
  "first_snap = \<lparr>struct = \<lparr>key = 0, loc = [0, 1]\<rparr>, target_energy = 2, target_forces = []\<rparr>"

definition grown_state :: leapfrog where
  "grown_state =
     start_state\<lparr>fp := [0], fp_e := [2], data_plus := Some 1, ref_plus := Some 2,
       model := \<lparr>data = [first_snap], X = [0, 1],
                  calls = [Add_1atoms first_snap, Add_1inducing 0, Add_1inducing 1]\<rparr>\<rparr>"

definition regrown_state :: leapfrog where
  "regrown_state =
     grown_state\<lparr>fp := [0, 0], fp_e := [2, 2],
       model := \<lparr>data = [first_snap, first_snap], X = [0, 1, 0, 1],
                  calls = [Add_1atoms first_snap, Add_1inducing 0, Add_1inducing 1,
                           Add_1atoms first_snap, Add_1inducing 0, Add_1inducing 1]\<rparr>\<rparr>"

text \<open>The state after \<open>undo_update\<close> on \<open>grown_state\<close>.\<close>

definition undone_state :: leapfrog where
  "undone_state =
     grown_state\<lparr>model := \<lparr>data = [], X = [],
                  calls = [Add_1atoms first_snap, Add_1inducing 0, Add_1inducing 1,
                           Pop_1data, Pop_1inducing, Pop_1inducing]\<rparr>\<rparr>"

text \<open>
  An environment in which every inducing point is accepted and no training structure is,
  the state after the ranked insertion of the two local environments of \<open>start_state\<close>,
  and the snapshot of its structure with the targets the surrogate predicts.
\<close>

definition picky_env :: env where
  "picky_env = quiet_env\<lparr>inducing_change := (\<lambda>d x l. 1)\<rparr>"

definition ranked_state :: leapfrog where
  "ranked_state =
     start_state\<lparr>model := \<lparr>data = [], X = [0, 1],
                             calls = [Add_1inducing 0, Add_1inducing 1]\<rparr>\<rparr>"

definition fake_snap :: snap where
  "fake_snap = \<lparr>struct = \<lparr>key = 0, loc = [0, 1]\<rparr>, target_energy = 1, target_forces = []\<rparr>"

text \<open>
  An environment whose surrogate accepts every inducing point and of the training
  structures only those with target energy 1 (here: the fake snapshot, not the real one),
  and the state that \<open>algorithm_ultrafast\<close> reaches in it from \<open>start_state\<close>.
\<close>

definition fickle_env :: env where
  "fickle_env = quiet_env\<lparr>inducing_change := (\<lambda>d x l. 1),
                           atoms_accept := (\<lambda>d x n ed fd. target_energy n = 1)\<rparr>"

definition declined_state :: leapfrog where
  "declined_state =
     start_state\<lparr>fp := [0], fp_e := [2], results := Some 1,
       model := \<lparr>data = [], X = [0, 1],
                  calls = [Add_1inducing 0, Add_1inducing 1,
                           Add_1atoms fake_snap, Pop_1data, Add_1atoms first_snap]\<rparr>\<rparr>"

text \<open>
  The state after one pass of \<open>run_updates\<close> from \<open>start_state\<close> in \<open>quiet_env\<close>: the
  update was attempted and nothing was accepted.
\<close>

definition idle_state :: leapfrog where
  "idle_state =
     start_state\<lparr>step := 1, fp := [0], fp_e := [2], energy := [1, 1], temperature := [0, 0],
       data_plus := Some 0, ref_plus := Some 0, results := Some 1,
       model := \<lparr>data = [], X = [],
                  calls = [Add_1atoms first_snap, Add_1inducing 0, Add_1inducing 1]\<rparr>\<rparr>"

text \<open>The state after one pass of \<open>run_updates\<close> from \<open>start_state\<close> in \<open>eager_env\<close>.\<close>

definition stepped_state :: leapfrog where
  "stepped_state =
     grown_state\<lparr>step := 1, energy := [1, 1], temperature := [0, 0], results := Some 1\<rparr>"

text \<open>
  A system of two atoms at distance 5 with its one selected pair, a system of three atoms
  with two selected pairs that share the atom in the middle, the same two pairs as rows of a
  local environment, and a base kernel with value \<open>x * y + y\<close>.
\<close>

definition two_atoms :: system where
  "two_atoms = \<lparr>natoms = 2,
     selected = [\<lparr>row_i = 0, row_j = 1, row_d = 5, row_u = (3 / 5, 4 / 5, 0)\<rparr>]\<rparr>"

definition three_atoms :: system where
  "three_atoms = \<lparr>natoms = 3,
     selected = [\<lparr>row_i = 0, row_j = 1, row_d = 5, row_u = (3 / 5, 4 / 5, 0)\<rparr>,
                 \<lparr>row_i = 1, row_j = 2, row_d = 5, row_u = (0, 3 / 5, 4 / 5)\<rparr>]\<rparr>"

definition two_rows :: "loc_row list" where
  "two_rows = [\<lparr>loc_i = 0, loc_j = 1, loc_r = (3, 4, 0)\<rparr>,
               \<lparr>loc_i = 1, loc_j = 2, loc_r = (0, 3, 4)\<rparr>]"

definition linear_kernel :: base_kernel where
  "linear_kernel = \<lparr>kern = (\<lambda>x y. x * y + y), kern_leftgrad = (\<lambda>x y. y)\<rparr>"

section \<open>The algorithms only extend the surrogate\<close>

lemma extends_refl: "extends m m"
  by (simp add: extends_def)

lemma extends_trans: "extends a b \<Longrightarrow> extends b c \<Longrightarrow> extends a c"
  unfolding extends_def by (meson prefix_order.order_trans)

lemma extends_add_1inducing: "extends m (snd (add_1inducing e m l ed))"
  by (simp add: extends_def add_1inducing_def Let_def)

lemma extends_add_1atoms: "extends m (snd (add_1atoms e m new ed fd))"
  by (simp add: extends_def add_1atoms_def Let_def)

lemma model_snapshot: "model (snd (snapshot e fake copy s)) = model s"
  by (simp add: snapshot_def cached_def Let_def split: option.splits prod.splits)

lemma extends_model_add_1atoms: "extends (model s) (model (model_add_1atoms e new s))"
  by (simp add: model_add_1atoms_def extends_add_1atoms)

lemma extends_robust_loop: "extends (model s) (model (robust_loop e ls s))"
proof (induction ls arbitrary: s)
  case Nil
  show ?case by (simp add: extends_refl)
next
  case (Cons l ls)
  define s' where "s' = s\<lparr>model := snd (add_1inducing e (model s) l (threshold s))\<rparr>"
  have a: "extends (model s) (model s')"
    by (simp add: s'_def extends_add_1inducing)
  have b: "extends (model s') (model (robust_loop e ls s'))"
    by (rule Cons.IH)
  show ?case
    using extends_trans [OF a b] by (simp add: s'_def)
qed

lemma extends_algorithm_robust: "extends (model s) (model (algorithm_robust e datafirst s))"
proof -
  obtain new s1 where sn: "snapshot e False None s = (new, s1)"
    by (cases "snapshot e False None s")
  have m1: "model s1 = model s"
    using model_snapshot [of e False None s] sn by simp
  obtain df s2 where d: "(case datafirst of
                        None \<Rightarrow> (coin e (draws s1), s1\<lparr>draws := Suc (draws s1)\<rparr>)
                      | Some b \<Rightarrow> (b, s1)) = (df, s2)"
    by (cases "(case datafirst of
                        None \<Rightarrow> (coin e (draws s1), s1\<lparr>draws := Suc (draws s1)\<rparr>)
                      | Some b \<Rightarrow> (b, s1))")
  have m2: "model s2 = model s"
    using d m1 by (auto split: option.splits)
  define s3 where "s3 = (if df then model_add_1atoms e new s2 else s2)"
  define s4 where "s4 = robust_loop e (loc (struct new)) s3"
  have e3: "extends (model s) (model s3)"
    using extends_model_add_1atoms [of s2 e new] m2 by (simp add: s3_def extends_refl)
  have e4: "extends (model s) (model s4)"
    unfolding s4_def using e3 extends_robust_loop extends_trans by blast
  have e5: "extends (model s) (model (if \<not> df then model_add_1atoms e new s4 else s4))"
    using e4 extends_model_add_1atoms [of s4 e new] extends_trans by auto
  have "algorithm_robust e datafirst s = (if \<not> df then model_add_1atoms e new s4 else s4)"
    by (simp add: algorithm_robust_def sn d s3_def s4_def Let_def)
  then show ?thesis
    using e5 by simp
qed

lemma extends_fast_loop: "extends (model s) (model (snd (fast_loop e ls (n, s))))"
proof (induction ls arbitrary: n s)
  case Nil
  show ?case by (simp add: extends_refl)
next
  case (Cons l ls)
  obtain change m where a: "add_1inducing e (model s) l (threshold s) = (change, m)"
    by (cases "add_1inducing e (model s) l (threshold s)")
  have "extends (model s) m"
    using extends_add_1inducing [of "model s" e l "threshold s"] a by simp
  moreover have "extends m (model (snd (fast_loop e ls
       (if threshold s \<le> change then n + 1 else n, s\<lparr>model := m\<rparr>))))"
    using Cons.IH [of "s\<lparr>model := m\<rparr>"] by simp
  ultimately have "extends (model s) (model (snd (fast_loop e ls
       (if threshold s \<le> change then n + 1 else n, s\<lparr>model := m\<rparr>))))"
    by (rule extends_trans)
  then show ?case
    using a by (simp add: Let_def)
qed

lemma extends_algorithm_fast: "extends (model s) (model (algorithm_fast e s))"
proof -
  obtain n s1 where f: "fast_loop e (loc (live s)) (0, s) = (n, s1)"
    by (cases "fast_loop e (loc (live s)) (0, s)")
  have e1: "extends (model s) (model s1)"
    using extends_fast_loop [of s e "loc (live s)" 0] f by simp
  obtain new s2 where sn: "snapshot e False None s1 = (new, s2)"
    by (cases "snapshot e False None s1")
  have "model s2 = model s1"
    using model_snapshot [of e False None s1] sn by simp
  then have "extends (model s) (model (model_add_1atoms e new s2))"
    using e1 extends_model_add_1atoms [of s2 e new] extends_trans by auto
  then show ?thesis
    using e1 by (simp add: algorithm_fast_def Let_def f sn)
qed

lemma extends_ranked_loop:
  "ranked_loop e locs ks (n, s) = Inr (n', s') \<Longrightarrow> extends (model s) (model s')"
proof (induction ks arbitrary: n s)
  case Nil
  then show ?case by (simp add: extends_refl)
next
  case (Cons k ks)
  from Cons.prems have k: "k < length locs"
    by (auto split: if_splits)
  obtain change m where a: "add_1inducing e (model s) (locs ! k) (threshold s) = (change, m)"
    by (cases "add_1inducing e (model s) (locs ! k) (threshold s)")
  have em: "extends (model s) m"
    using extends_add_1inducing [of "model s" e "locs ! k" "threshold s"] a by simp
  show ?case
  proof (cases "threshold s \<le> change")
    case True
    then have "ranked_loop e locs ks (n + 1, s\<lparr>model := m\<rparr>) = Inr (n', s')"
      using Cons.prems k a by (simp add: Let_def)
    then have "extends m (model s')"
      using Cons.IH [of "n + 1" "s\<lparr>model := m\<rparr>"] by simp
    then show ?thesis using em extends_trans by blast
  next
    case False
    then have "s' = s\<lparr>model := m\<rparr>"
      using Cons.prems k a by (simp add: Let_def)
    then show ?thesis using em by simp
  qed
qed

lemma extends_ranked: "ranked e s = Inr (n, s') \<Longrightarrow> extends (model s) (model s')"
  unfolding ranked_def Let_def by (rule extends_ranked_loop)

lemma extends_algorithm_fastfast:
  assumes "algorithm_fastfast e s = Inr s'"
  shows "extends (model s) (model s')"
proof -
  obtain n s1 where r: "ranked e s = Inr (n, s1)"
    using assms unfolding algorithm_fastfast_def by (auto split: sum.splits)
  have e1: "extends (model s) (model s1)"
    using extends_ranked [OF r] .
  obtain new s2 where sn: "snapshot e False None s1 = (new, s2)"
    by (cases "snapshot e False None s1")
  have "model s2 = model s1"
    using model_snapshot [of e False None s1] sn by simp
  then have "extends (model s) (model (model_add_1atoms e new s2))"
    using e1 extends_model_add_1atoms [of s2 e new] extends_trans by auto
  then show ?thesis
    using e1 assms by (auto simp: algorithm_fastfast_def r sn Let_def split: if_splits)
qed

lemma extends_algorithm_ultrafast:
  assumes "algorithm_ultrafast e s = Inr s'"
  shows "extends (model s) (model s')"
proof -
  obtain n s1 where r: "ranked e s = Inr (n, s1)"
    using assms unfolding algorithm_ultrafast_def by (auto split: sum.splits)
  have e1: "extends (model s) (model s1)"
    using extends_ranked [OF r] .
  show ?thesis
  proof (cases "0 < n")
    case False
    then show ?thesis
      using assms e1 by (simp add: algorithm_ultrafast_def r)
  next
    case True
    obtain new s2 where sn: "snapshot e True None s1 = (new, s2)"
      by (cases "snapshot e True None s1")
    have m2: "model s2 = model s1"
      using model_snapshot [of e True None s1] sn by simp
    define s3 where "s3 = model_add_1atoms e new s2"
    have e3: "extends (model s1) (model s3)"
      using extends_model_add_1atoms [of s2 e new] m2 by (simp add: s3_def)
    show ?thesis
    proof (cases "length (data (model s1)) < length (data (model s3))")
      case False
      then have "s' = s3"
        using assms True by (simp add: algorithm_ultrafast_def r sn s3_def Let_def)
      then show ?thesis
        using e1 e3 extends_trans by blast
    next
      case grew: True
      then have ne: "data (model s3) \<noteq> []"
        by auto
      define m where "m = (model s3)\<lparr>data := butlast (data (model s3)),
                                       calls := calls (model s3) @ [Pop_1data]\<rparr>"
      have p: "pop_1data (model s3) = Inr m"
        using ne by (simp add: pop_1data_def m_def)
      have d3: "data (model s3) = data (model s1) @ [new]" and x3: "X (model s3) = X (model s1)"
        using grew m2 by (auto simp: s3_def model_add_1atoms_def add_1atoms_def Let_def split: if_splits)
      have em: "extends (model s1) m"
        by (simp add: extends_def m_def d3 x3)
      obtain new2 s5 where sn2: "snapshot e False (Some (struct new)) (s3\<lparr>model := m\<rparr>) = (new2, s5)"
        by (cases "snapshot e False (Some (struct new)) (s3\<lparr>model := m\<rparr>)")
      have m5: "model s5 = m"
        using model_snapshot [of e False "Some (struct new)" "s3\<lparr>model := m\<rparr>"] sn2 by simp
      have "s' = model_add_1atoms e new2 s5"
        using assms True grew by (simp add: algorithm_ultrafast_def r sn s3_def [symmetric] Let_def p sn2)
      moreover have "extends m (model (model_add_1atoms e new2 s5))"
        using extends_model_add_1atoms [of s5 e new2] m5 by simp
      ultimately show ?thesis
        using e1 em extends_trans by blast
    qed
  qed
qed

lemma extends_run_algorithm: "run_algorithm e s = Inr s' \<Longrightarrow> extends (model s) (model s')"
  unfolding run_algorithm_def
  using extends_algorithm_robust extends_algorithm_fast extends_algorithm_fastfast
    extends_algorithm_ultrafast
  by (auto split: algo.splits)

lemma pop_data_while_take:
  "nat d \<le> length (data m) \<Longrightarrow>
   pop_data_while d m = Inr (m\<lparr>data := take (length (data m) - nat d) (data m),
                                calls := calls m @ replicate (nat d) Pop_1data\<rparr>)"
proof (induction d m rule: pop_data_while.induct)
  case (1 d m)
  show ?case
  proof (cases "0 < d")
    case False
    then show ?thesis by simp
  next
    case True
    then have ne: "data m \<noteq> []"
      using "1.prems" by auto
    define m1 where "m1 = m\<lparr>data := butlast (data m), calls := calls m @ [Pop_1data]\<rparr>"
    have p: "pop_1data m = Inr m1"
      using ne by (simp add: pop_1data_def m1_def)
    have le: "nat (d - 1) \<le> length (data m1)"
      using "1.prems" True by (simp add: m1_def)
    have n: "nat d = Suc (nat (d - 1))"
      using True by simp
    have "pop_data_while (d - 1) m1 =
            Inr (m1\<lparr>data := take (length (data m1) - nat (d - 1)) (data m1),
                     calls := calls m1 @ replicate (nat (d - 1)) Pop_1data\<rparr>)"
      using "1.IH" [OF True p le] .
    moreover have "take (length (data m1) - nat (d - 1)) (data m1)
                     = take (length (data m) - nat d) (data m)"
      using n by (simp add: m1_def butlast_conv_take min_def)
    moreover have "calls m1 @ replicate (nat (d - 1)) Pop_1data
                     = calls m @ replicate (nat d) Pop_1data"
      unfolding n by (simp add: m1_def replicate_app_Cons_same)
    ultimately show ?thesis
      using True p by (simp add: m1_def)
  qed
qed

lemma pop_inducing_while_take:
  "nat i \<le> length (X m) \<Longrightarrow>
   pop_inducing_while i m = Inr (m\<lparr>X := take (length (X m) - nat i) (X m),
                                    calls := calls m @ replicate (nat i) Pop_1inducing\<rparr>)"
proof (induction i m rule: pop_inducing_while.induct)
  case (1 i m)
  show ?case
  proof (cases "0 < i")
    case False
    then show ?thesis by simp
  next
    case True
    then have ne: "X m \<noteq> []"
      using "1.prems" by auto
    define m1 where "m1 = m\<lparr>X := butlast (X m), calls := calls m @ [Pop_1inducing]\<rparr>"
    have p: "pop_1inducing m = Inr m1"
      using ne by (simp add: pop_1inducing_def m1_def)
    have le: "nat (i - 1) \<le> length (X m1)"
      using "1.prems" True by (simp add: m1_def)
    have n: "nat i = Suc (nat (i - 1))"
      using True by simp
    have "pop_inducing_while (i - 1) m1 =
            Inr (m1\<lparr>X := take (length (X m1) - nat (i - 1)) (X m1),
                     calls := calls m1 @ replicate (nat (i - 1)) Pop_1inducing\<rparr>)"
      using "1.IH" [OF True p le] .
    moreover have "take (length (X m1) - nat (i - 1)) (X m1)
                     = take (length (X m) - nat i) (X m)"
      using n by (simp add: m1_def butlast_conv_take min_def)
    moreover have "calls m1 @ replicate (nat (i - 1)) Pop_1inducing
                     = calls m @ replicate (nat i) Pop_1inducing"
      unfolding n by (simp add: m1_def replicate_app_Cons_same)
    ultimately show ?thesis
      using True p by (simp add: m1_def)
  qed
qed

text \<open>What \<open>undo_update\<close> does when both sets hold enough entries.\<close>

lemma undo_update_pops:
  assumes "data_plus s = Some d" and "ref_plus s = Some i"
    and "nat d \<le> length (data (model s))" and "nat i \<le> length (X (model s))"
  shows "undo_update s =
           Inr (s\<lparr>model := \<lparr>data = take (length (data (model s)) - nat d) (data (model s)),
                             X = take (length (X (model s)) - nat i) (X (model s)),
                             calls = calls (model s) @ replicate (nat d) Pop_1data
                                       @ replicate (nat i) Pop_1inducing\<rparr>\<rparr>)"
proof -
  define m1 where "m1 = (model s)\<lparr>data := take (length (data (model s)) - nat d) (data (model s)),
                                   calls := calls (model s) @ replicate (nat d) Pop_1data\<rparr>"
  have a: "pop_data_while d (model s) = Inr m1"
    unfolding m1_def using assms(3) by (rule pop_data_while_take)
  have "nat i \<le> length (X m1)"
    using assms(4) by (simp add: m1_def)
  then have b: "pop_inducing_while i m1 =
                  Inr (m1\<lparr>X := take (length (X m1) - nat i) (X m1),
                           calls := calls m1 @ replicate (nat i) Pop_1inducing\<rparr>)"
    by (rule pop_inducing_while_take)
  show ?thesis
    unfolding undo_update_def using assms(1,2) a b by (simp add: m1_def)
qed

text \<open>What \<open>update_model\<close> leaves behind when it returns.\<close>

lemma update_model_result:
  assumes "update_model e s = Inr (tf, s1)"
  shows "extends (model s) (model s1)"
    and "data_plus s1 = Some (int (length (data (model s1))) - int (length (data (model s))))"
    and "ref_plus s1 = Some (int (length (X (model s1))) - int (length (X (model s))))"
    and "tf = (length (data (model s)) < length (data (model s1))
              \<or> length (X (model s)) < length (X (model s1)))"
proof -
  obtain s0 where a: "(if volatile s then Inr (algorithm_robust e (Some True) s)
                       else run_algorithm e s) = Inr s0"
    using assms unfolding update_model_def Let_def by (auto split: sum.splits)
  have e0: "extends (model s) (model s0)"
    using a extends_algorithm_robust extends_run_algorithm by (auto split: if_splits)
  define dp where "dp = int (length (data (model s0))) - int (length (data (model s)))"
  define rp where "rp = int (length (X (model s0))) - int (length (X (model s)))"
  define s2 where "s2 = s0\<lparr>data_plus := Some dp, ref_plus := Some rp\<rparr>"
  have "Inr (tf, s1) = (Inr (0 < dp \<or> 0 < rp, if 0 < dp \<or> 0 < rp then s2\<lparr>results := None\<rparr> else s2)
          :: error + bool \<times> leapfrog)"
    using assms unfolding update_model_def Let_def a sizes_def fst_conv snd_conv
    by (auto simp: dp_def rp_def s2_def)
  then have tf: "tf = (0 < dp \<or> 0 < rp)"
    and s1e: "s1 = (if 0 < dp \<or> 0 < rp then s2\<lparr>results := None\<rparr> else s2)"
    by simp_all
  have s1: "model s1 = model s0"
    by (simp add: s1e s2_def)
  have dp: "data_plus s1 = Some (int (length (data (model s0))) - int (length (data (model s))))"
    by (simp add: s1e s2_def dp_def)
  have rp: "ref_plus s1 = Some (int (length (X (model s0))) - int (length (X (model s))))"
    by (simp add: s1e s2_def rp_def)
  have t: "tf = (length (data (model s)) < length (data (model s0))
              \<or> length (X (model s)) < length (X (model s0)))"
    unfolding tf dp_def rp_def by auto
  show "extends (model s) (model s1)" using e0 s1 by simp
  show "data_plus s1 = Some (int (length (data (model s1))) - int (length (data (model s))))"
    using dp s1 by simp
  show "ref_plus s1 = Some (int (length (X (model s1))) - int (length (X (model s))))"
    using rp s1 by simp
  show "tf = (length (data (model s)) < length (data (model s1))
              \<or> length (X (model s)) < length (X (model s1)))"
    using t s1 by simp
qed

lemma undo_after_update:
  assumes "update_model e s = Inr (tf, s1)"
  shows "undo_update s1 =
           Inr (s1\<lparr>model := \<lparr>data = data (model s), X = X (model s),
              calls = calls (model s1)
                @ replicate (length (data (model s1)) - length (data (model s))) Pop_1data
                @ replicate (length (X (model s1)) - length (X (model s))) Pop_1inducing\<rparr>\<rparr>)"
proof -
  note r = update_model_result [OF assms]
  obtain ds xs where d: "data (model s1) = data (model s) @ ds" and x: "X (model s1) = X (model s) @ xs"
    using r(1) unfolding extends_def prefix_def by blast
  have "undo_update s1 =
           Inr (s1\<lparr>model := \<lparr>data = take (length (data (model s1)) - nat (int (length ds))) (data (model s1)),
                             X = take (length (X (model s1)) - nat (int (length xs))) (X (model s1)),
                             calls = calls (model s1) @ replicate (nat (int (length ds))) Pop_1data
                                       @ replicate (nat (int (length xs))) Pop_1inducing\<rparr>\<rparr>)"
    by (rule undo_update_pops) (use r(2,3) d x in simp_all)
  then show ?thesis
    by (simp add: d x)
qed

lemma pop_data_while_fails:
  "length (data m) < nat d \<Longrightarrow> pop_data_while d m = Inl IndexError"
proof (induction d m rule: pop_data_while.induct)
  case (1 d m)
  then have pos: "0 < d"
    by simp
  show ?case
  proof (cases "data m = []")
    case True
    then show ?thesis
      using pos by (simp add: pop_1data_def)
  next
    case False
    define m1 where "m1 = m\<lparr>data := butlast (data m), calls := calls m @ [Pop_1data]\<rparr>"
    have p: "pop_1data m = Inr m1"
      using False by (simp add: pop_1data_def m1_def)
    have n: "nat d = Suc (nat (d - 1))"
      using pos by simp
    have "length (data m1) < nat (d - 1)"
      using "1.prems" False unfolding n by (cases "data m") (auto simp: m1_def)
    then have "pop_data_while (d - 1) m1 = Inl IndexError"
      using "1.IH" [OF pos p] by simp
    then show ?thesis
      using pos p by simp
  qed
qed

lemma pop_inducing_while_fails:
  "length (X m) < nat i \<Longrightarrow> pop_inducing_while i m = Inl IndexError"
proof (induction i m rule: pop_inducing_while.induct)
  case (1 i m)
  then have pos: "0 < i"
    by simp
  show ?case
  proof (cases "X m = []")
    case True
    then show ?thesis
      using pos by (simp add: pop_1inducing_def)
  next
    case False
    define m1 where "m1 = m\<lparr>X := butlast (X m), calls := calls m @ [Pop_1inducing]\<rparr>"
    have p: "pop_1inducing m = Inr m1"
      using False by (simp add: pop_1inducing_def m1_def)
    have n: "nat i = Suc (nat (i - 1))"
      using pos by simp
    have "length (X m1) < nat (i - 1)"
      using "1.prems" False unfolding n by (cases "X m") (auto simp: m1_def)
    then have "pop_inducing_while (i - 1) m1 = Inl IndexError"
      using "1.IH" [OF pos p] by simp
    then show ?thesis
      using pos p by simp
  qed
qed

text \<open>What \<open>undo_update\<close> does when one of the sets holds too few entries.\<close>

lemma undo_update_fails:
  assumes "data_plus s = Some d" and "ref_plus s = Some i"
    and "length (data (model s)) < nat d \<or> length (X (model s)) < nat i"
  shows "undo_update s = Inl IndexError"
proof (cases "length (data (model s)) < nat d")
  case True
  then have "pop_data_while d (model s) = Inl IndexError"
    by (rule pop_data_while_fails)
  then show ?thesis
    using assms(1,2) by (simp add: undo_update_def del: pop_data_while.simps)
next
  case False
  then have le: "nat d \<le> length (data (model s))" and x: "length (X (model s)) < nat i"
    using assms(3) by simp_all
  define m1 where "m1 = (model s)\<lparr>data := take (length (data (model s)) - nat d) (data (model s)),
                                   calls := calls (model s) @ replicate (nat d) Pop_1data\<rparr>"
  have a: "pop_data_while d (model s) = Inr m1"
    unfolding m1_def using le by (rule pop_data_while_take)
  have "length (X m1) < nat i"
    using x by (simp add: m1_def)
  then have "pop_inducing_while i m1 = Inl IndexError"
    by (rule pop_inducing_while_fails)
  then show ?thesis
    using assms(1,2) a
    by (simp add: undo_update_def del: pop_data_while.simps pop_inducing_while.simps)
qed

section \<open>What the insertion loops change\<close>

lemma fast_loop_effect:
  "fast_loop e ls (n, s) = (n', s') \<Longrightarrow>
     s' = s\<lparr>model := model s'\<rparr> \<and> data (model s') = data (model s)
     \<and> calls (model s') = calls (model s) @ map Add_1inducing ls
     \<and> length (X (model s)) \<le> length (X (model s'))
     \<and> n' = n + (length (X (model s')) - length (X (model s)))"
proof (induction ls arbitrary: n s)
  case Nil
  then show ?case by simp
next
  case (Cons l ls)
  define change where "change = inducing_change e (data (model s)) (X (model s)) l"
  define m where "m = (model s)\<lparr>X := (if threshold s \<le> change then X (model s) @ [l] else X (model s)),
                                  calls := calls (model s) @ [Add_1inducing l]\<rparr>"
  have a: "add_1inducing e (model s) l (threshold s) = (change, m)"
    by (simp add: add_1inducing_def Let_def change_def m_def)
  define n2 where "n2 = (if threshold s \<le> change then n + 1 else n)"
  have "fast_loop e ls (n2, s\<lparr>model := m\<rparr>) = (n', s')"
    using Cons.prems a by (simp add: Let_def n2_def)
  from Cons.IH [OF this]
  have ih: "s' = s\<lparr>model := model s'\<rparr>" "data (model s') = data m"
    "calls (model s') = calls m @ map Add_1inducing ls"
    "length (X m) \<le> length (X (model s'))"
    "n' = n2 + (length (X (model s')) - length (X m))"
    by simp_all
  have "length (X m) = length (X (model s)) + (if threshold s \<le> change then 1 else 0)"
    by (simp add: m_def)
  then have "length (X (model s)) \<le> length (X (model s'))"
    and "n' = n + (length (X (model s')) - length (X (model s)))"
    using ih(4,5) by (auto simp: n2_def)
  then show ?case
    using ih(1,2,3) by (simp add: m_def)
qed

lemma ranked_loop_frame:
  "ranked_loop e locs ks (n, s) = Inr (n', s') \<Longrightarrow>
     s' = s\<lparr>model := model s'\<rparr> \<and> data (model s') = data (model s)"
proof (induction ks arbitrary: n s)
  case Nil
  then show ?case by simp
next
  case (Cons k ks)
  from Cons.prems have k: "k < length locs"
    by (auto split: if_splits)
  define change where "change = inducing_change e (data (model s)) (X (model s)) (locs ! k)"
  define m where "m = (model s)\<lparr>X := (if threshold s \<le> change then X (model s) @ [locs ! k] else X (model s)),
                                  calls := calls (model s) @ [Add_1inducing (locs ! k)]\<rparr>"
  have a: "add_1inducing e (model s) (locs ! k) (threshold s) = (change, m)"
    by (simp add: add_1inducing_def Let_def change_def m_def)
  show ?case
  proof (cases "threshold s \<le> change")
    case True
    then have "ranked_loop e locs ks (n + 1, s\<lparr>model := m\<rparr>) = Inr (n', s')"
      using Cons.prems k a by (simp add: Let_def)
    from Cons.IH [OF this] show ?thesis
      by (simp add: m_def)
  next
    case False
    then have "s' = s\<lparr>model := m\<rparr>"
      using Cons.prems k a by (simp add: Let_def)
    then show ?thesis by (simp add: m_def)
  qed
qed

lemma ranked_frame:
  "ranked e s = Inr (n, s1) \<Longrightarrow> s1 = s\<lparr>model := model s1\<rparr> \<and> data (model s1) = data (model s)"
  unfolding ranked_def Let_def by (rule ranked_loop_frame)

section \<open>The update algorithms return\<close>

lemma ranked_loop_returns:
  "\<forall>k\<in>set ks. k < length locs \<Longrightarrow> \<exists>n' s'. ranked_loop e locs ks (n, s) = Inr (n', s')"
proof (induction ks arbitrary: n s)
  case Nil
  show ?case by simp
next
  case (Cons k ks)
  obtain change m where a: "add_1inducing e (model s) (locs ! k) (threshold s) = (change, m)"
    by (cases "add_1inducing e (model s) (locs ! k) (threshold s)")
  have k: "k < length locs" and ks: "\<forall>k\<in>set ks. k < length locs"
    using Cons.prems by simp_all
  show ?case
    using Cons.IH [OF ks, of "n + 1" "s\<lparr>model := m\<rparr>"] k a by (simp add: Let_def)
qed

lemma ranked_returns:
  assumes "length (leakages e (data (model s)) (X (model s)) (loc (live s))) = length (loc (live s))"
  shows "\<exists>n s1. ranked e s = Inr (n, s1)"
proof -
  have "\<forall>k\<in>set (argsort_desc (leakages e (data (model s)) (X (model s)) (loc (live s)))).
          k < length (loc (live s))"
    using assms by (simp add: argsort_desc_def)
  then show ?thesis
    unfolding ranked_def Let_def by (rule ranked_loop_returns)
qed

lemma algorithm_fastfast_returns:
  "ranked e s = Inr (n, s1) \<Longrightarrow> \<exists>s'. algorithm_fastfast e s = Inr s'"
  by (simp add: algorithm_fastfast_def Let_def split: prod.splits)

lemma algorithm_ultrafast_returns:
  assumes "ranked e s = Inr (n, s1)"
  shows "\<exists>s'. algorithm_ultrafast e s = Inr s'"
proof -
  obtain new s2 where sn: "snapshot e True None s1 = (new, s2)"
    by (cases "snapshot e True None s1")
  define s3 where "s3 = model_add_1atoms e new s2"
  have "length (data (model s1)) < length (data (model s3)) \<Longrightarrow> \<exists>m. pop_1data (model s3) = Inr m"
    by (auto simp: pop_1data_def)
  then show ?thesis
    using assms sn by (auto simp: algorithm_ultrafast_def Let_def s3_def split: prod.splits)
qed

lemma update_model_returns:
  assumes "length (leakages e (data (model s)) (X (model s)) (loc (live s))) = length (loc (live s))"
  shows "\<exists>tf s1. update_model e s = Inr (tf, s1)"
proof -
  obtain n s1 where r: "ranked e s = Inr (n, s1)"
    using ranked_returns [OF assms] by blast
  have "\<exists>s0. run_algorithm e s = Inr s0"
    using algorithm_fastfast_returns [OF r] algorithm_ultrafast_returns [OF r]
    by (simp add: run_algorithm_def split: algo.splits)
  then have "\<exists>s0. (if volatile s then Inr (algorithm_robust e (Some True) s)
                         else run_algorithm e s) = Inr s0"
    by (cases "volatile s") simp_all
  then obtain s0 where "(if volatile s then Inr (algorithm_robust e (Some True) s)
                         else run_algorithm e s) = Inr s0"
    by blast
  then show ?thesis
    by (simp add: update_model_def Let_def)
qed

section \<open>What an update and a step change of the trajectory\<close>















section \<open>Sums of scattered vectors\<close>


















lemma length_contract: "length (contract c us) = min (length c) (length us)"
  by (simp add: contract_def)





section \<open>What each atom receives\<close>














section \<open>Evaluation on the concrete inputs\<close>

lemmas fixture_defs = start_state_def grown_state_def regrown_state_def first_snap_def
  eager_env_def quiet_env_def picky_env_def ranked_state_def fake_snap_def idle_state_def
  stepped_state_def fickle_env_def declined_state_def

lemmas controller_defs = update_model_def volatile_def run_algorithm_def
  algorithm_robust_def algorithm_fast_def snapshot_def cached_def model_add_1atoms_def
  add_1atoms_def add_1inducing_def threshold_def sizes_def tiny_def Let_def


lemma update_model_eager_start: "update_model eager_env start_state = Inr (True, grown_state)"
  by (simp add: controller_defs fixture_defs)

lemma update_model_eager_grown: "update_model eager_env grown_state = Inr (True, regrown_state)"
  by (simp add: controller_defs fixture_defs)

lemma ranked_fickle_start: "ranked fickle_env start_state = Inr (2, ranked_state)"
  by (simp add: ranked_def argsort_desc_def controller_defs fixture_defs upt_rec)

lemmas kernel_defs = distance_leftgrad_def pair_leftgrad_def calculate_def contract_def
  matrix_def zeros_def vsum_def vadd_def vneg_def smul_def sdiv_def Let_def
  coulomb_func_def coulomb_leftgrad_def two_atoms_def three_atoms_def two_rows_def linear_kernel_def
  numeral_2_eq_2



lemma matrix_cong:
  "(\<And>x y. x \<in> set xs \<Longrightarrow> y \<in> set ys \<Longrightarrow> f x y = g x y) \<Longrightarrow> matrix f xs ys = matrix g xs ys"
  by (simp add: matrix_def)

section \<open>Extremum detection\<close>

text \<open>
  Claim C3. With at least three energies in the history, \<open>doit\<close> records the current step
  as an extremum exactly when the last two energy differences have a negative product and
  the step before was not itself recorded as an extremum. For the energies 1, 2, 1 at
  steps 0, 1, 2 and then 2 at step 3, step 2 is recorded and step 3 is not.
\<close>

theorem doit_flags_extremum:
  assumes "energy s = es @ [a, b, c]" and "0 \<le> prob" and "prob \<le> 1"
  shows "\<exists>r s'. doit e prob s = Inr (r, s') \<and>
           ext s' = (if (c - b) * (b - a) < 0 \<and> \<not> (ext s \<noteq> [] \<and> last (ext s) = step s - 1)
                     then ext s @ [step s] else ext s)"
proof -
  have n: "length (energy s) = length es + 3"
    using assms(1) by simp
  have i1: "energy s ! (length es + 2) = c" and i2: "energy s ! (length es + 1) = b"
    and i3: "energy s ! length es = a"
    using assms(1) by (simp_all add: nth_append)
  have chk: "check s = ((c - b) * (b - a) < 0 \<and> \<not> (ext s \<noteq> [] \<and> last (ext s) = step s - 1))"
    unfolding check_def Let_def n using i1 i2 i3 by auto
  show ?thesis
    using assms(2,3) unfolding doit_def Let_def chk choice_def by auto
qed

theorem doit_flags_extremum_witness:
  "energy (start_state\<lparr>step := 2, energy := [1, 2, 1]\<rparr>) = [] @ [1, 2, 1] \<and>
   energy (start_state\<lparr>step := 3, energy := [1, 2, 1, 2], ext := [2]\<rparr>) = [1] @ [2, 1, 2] \<and>
   (0::real) \<le> 1 \<and> (1::real) \<le> 1 \<and>
   (\<exists>r s'. doit quiet_env 1 (start_state\<lparr>step := 2, energy := [1, 2, 1]\<rparr>) = Inr (r, s')
           \<and> ext s' = [2]) \<and>
   (\<exists>r s'. doit quiet_env 1 (start_state\<lparr>step := 3, energy := [1, 2, 1, 2], ext := [2]\<rparr>)
             = Inr (r, s') \<and> ext s' = [2])"
  using doit_flags_extremum [of "start_state\<lparr>step := 2, energy := [1, 2, 1]\<rparr>" "[]" 1 2 1 1 quiet_env]
    doit_flags_extremum [of "start_state\<lparr>step := 3, energy := [1, 2, 1, 2], ext := [2]\<rparr>"
      "[1]" 2 1 2 1 quiet_env]
  by (simp add: start_state_def)

section \<open>Undoing an update\<close>

text \<open>
  Claim C1. One call of \<open>update_model\<close> followed by one call of \<open>undo_update\<close> leaves the
  number of training structures and the number of inducing points as they were before the
  update (and the two sets themselves); the update returns whenever the leakage scores have
  one entry per local environment.
\<close>

theorem undo_update_left_inverse:
  "(\<forall>tf s1. update_model e s = Inr (tf, s1) \<longrightarrow>
      (\<exists>s2. undo_update s1 = Inr s2 \<and> sizes s2 = sizes s
            \<and> data (model s2) = data (model s) \<and> X (model s2) = X (model s)))
   \<and> (length (leakages e (data (model s)) (X (model s)) (loc (live s))) = length (loc (live s))
        \<longrightarrow> (\<exists>tf s1. update_model e s = Inr (tf, s1)))"
proof (intro conjI allI impI)
  fix tf s1
  assume "update_model e s = Inr (tf, s1)"
  then show "\<exists>s2. undo_update s1 = Inr s2 \<and> sizes s2 = sizes s
            \<and> data (model s2) = data (model s) \<and> X (model s2) = X (model s)"
    using undo_after_update [of e s tf s1] by (simp add: sizes_def)
next
  assume "length (leakages e (data (model s)) (X (model s)) (loc (live s))) = length (loc (live s))"
  then show "\<exists>tf s1. update_model e s = Inr (tf, s1)"
    by (rule update_model_returns)
qed

theorem undo_update_left_inverse_witness:
  "update_model eager_env start_state = Inr (True, grown_state) \<and> sizes grown_state = (1, 2)
   \<and> (\<exists>s2. undo_update grown_state = Inr s2 \<and> sizes s2 = (0, 0))
   \<and> length (leakages eager_env (data (model start_state)) (X (model start_state))
               (loc (live start_state))) = length (loc (live start_state))
   \<and> (\<exists>tf s1. update_model eager_env start_state = Inr (tf, s1))"
proof -
  have "\<exists>s2. undo_update grown_state = Inr s2 \<and> sizes s2 = sizes start_state"
    using undo_update_left_inverse [of eager_env start_state] update_model_eager_start by blast
  moreover have "sizes start_state = (0, 0)" and "sizes grown_state = (1, 2)"
    by (simp_all add: sizes_def fixture_defs)
  moreover have "length (leakages eager_env (data (model start_state)) (X (model start_state))
               (loc (live start_state))) = length (loc (live start_state))"
    by (simp add: fixture_defs)
  ultimately show ?thesis
    using update_model_eager_start by auto
qed

text \<open>
  Claim C4, amended. After \<open>update_model\<close>, \<open>undo_update\<close> removes exactly the training
  structures and the inducing points that the update appended, each set from its end; it
  always pops all the data entries first and the inducing points after them, whatever the
  order of insertion was.
\<close>

theorem undo_update_pops_added:
  assumes "update_model e s = Inr (tf, s1)"
  shows "\<exists>s2. undo_update s1 = Inr s2
           \<and> prefix (data (model s)) (data (model s1)) \<and> prefix (X (model s)) (X (model s1))
           \<and> data (model s2) = data (model s) \<and> X (model s2) = X (model s)
           \<and> calls (model s2) = calls (model s1)
                @ replicate (length (data (model s1)) - length (data (model s))) Pop_1data
                @ replicate (length (X (model s1)) - length (X (model s))) Pop_1inducing"
  using undo_after_update [OF assms] update_model_result(1) [OF assms]
  by (simp add: extends_def)

theorem undo_update_pops_added_witness:
  "update_model eager_env start_state = Inr (True, grown_state)
   \<and> (\<exists>s2. undo_update grown_state = Inr s2 \<and> data (model s2) = [] \<and> X (model s2) = []
         \<and> calls (model s2) = calls (model grown_state) @ [Pop_1data, Pop_1inducing, Pop_1inducing])"
proof -
  have l: "data (model start_state) = []" "X (model start_state) = []"
    "length (data (model grown_state)) = 1" "length (X (model grown_state)) = 2"
    by (simp_all add: fixture_defs)
  show ?thesis
    using undo_update_pops_added [OF update_model_eager_start] update_model_eager_start
    unfolding l by (simp add: numeral_2_eq_2)
qed

text \<open>
  Claim C4 as stated fails: \<open>algorithm_robust\<close> inserts the training structure before the
  inducing points, and \<open>undo_update\<close> still pops the data entry before the inducing points.
\<close>

theorem undo_update_order_counterexample:
  "update_model eager_env start_state = Inr (True, grown_state)
   \<and> calls (model grown_state) = [Add_1atoms first_snap, Add_1inducing 0, Add_1inducing 1]
   \<and> undo_update grown_state
       = Inr (grown_state\<lparr>model := \<lparr>data = [], X = [],
                calls = [Add_1atoms first_snap, Add_1inducing 0, Add_1inducing 1,
                         Pop_1data, Pop_1inducing, Pop_1inducing]\<rparr>\<rparr>)"
proof -
  have "undo_update grown_state
       = Inr (grown_state\<lparr>model := \<lparr>data = [], X = [],
                calls = [Add_1atoms first_snap, Add_1inducing 0, Add_1inducing 1,
                         Pop_1data, Pop_1inducing, Pop_1inducing]\<rparr>\<rparr>)"
    using undo_after_update [OF update_model_eager_start]
    by (simp add: fixture_defs numeral_2_eq_2)
  then show ?thesis
    using update_model_eager_start by (simp add: grown_state_def)
qed

text \<open>
  Claim C10, amended. \<open>undo_update\<close> leaves \<open>data_plus\<close> and \<open>ref_plus\<close> as they are, so a
  second call right after the first attempts the same numbers of pops again. It removes
  entries beyond the last update without an error only if each set held at least twice the
  recorded number of entries before the first call; otherwise the pop on an exhausted set
  raises. Only \<open>update_model\<close> assigns the counts anew.
\<close>

theorem undo_update_twice:
  assumes "data_plus s = Some d" and "ref_plus s = Some i"
    and "nat d \<le> length (data (model s))" and "nat i \<le> length (X (model s))"
  shows "\<exists>s1. undo_update s = Inr s1 \<and> data_plus s1 = Some d \<and> ref_plus s1 = Some i
           \<and> (if 2 * nat d \<le> length (data (model s)) \<and> 2 * nat i \<le> length (X (model s))
              then \<exists>s2. undo_update s1 = Inr s2 \<and> data_plus s2 = Some d \<and> ref_plus s2 = Some i
                     \<and> length (data (model s2)) = length (data (model s)) - 2 * nat d
                     \<and> length (X (model s2)) = length (X (model s)) - 2 * nat i
                     \<and> calls (model s2) = calls (model s)
                          @ replicate (nat d) Pop_1data @ replicate (nat i) Pop_1inducing
                          @ replicate (nat d) Pop_1data @ replicate (nat i) Pop_1inducing
              else undo_update s1 = Inl IndexError)
           \<and> (\<forall>e s0 tf s3. update_model e s0 = Inr (tf, s3) \<longrightarrow>
                 data_plus s3 = Some (int (length (data (model s3))) - int (length (data (model s0))))
               \<and> ref_plus s3 = Some (int (length (X (model s3))) - int (length (X (model s0)))))"
proof -
  define s1 where "s1 = s\<lparr>model := \<lparr>data = take (length (data (model s)) - nat d) (data (model s)),
                             X = take (length (X (model s)) - nat i) (X (model s)),
                             calls = calls (model s) @ replicate (nat d) Pop_1data
                                       @ replicate (nat i) Pop_1inducing\<rparr>\<rparr>"
  have u1: "undo_update s = Inr s1"
    unfolding s1_def using assms by (intro undo_update_pops) simp_all
  have c: "data_plus s1 = Some d" "ref_plus s1 = Some i"
    using assms(1,2) by (simp_all add: s1_def)
  have l1: "length (data (model s1)) = length (data (model s)) - nat d"
    "length (X (model s1)) = length (X (model s)) - nat i"
    using assms(3,4) by (simp_all add: s1_def)
  have second: "if 2 * nat d \<le> length (data (model s)) \<and> 2 * nat i \<le> length (X (model s))
              then \<exists>s2. undo_update s1 = Inr s2 \<and> data_plus s2 = Some d \<and> ref_plus s2 = Some i
                     \<and> length (data (model s2)) = length (data (model s)) - 2 * nat d
                     \<and> length (X (model s2)) = length (X (model s)) - 2 * nat i
                     \<and> calls (model s2) = calls (model s)
                          @ replicate (nat d) Pop_1data @ replicate (nat i) Pop_1inducing
                          @ replicate (nat d) Pop_1data @ replicate (nat i) Pop_1inducing
              else undo_update s1 = Inl IndexError"
  proof (cases "2 * nat d \<le> length (data (model s)) \<and> 2 * nat i \<le> length (X (model s))")
    case True
    define s2 where "s2 = s1\<lparr>model := \<lparr>data = take (length (data (model s1)) - nat d) (data (model s1)),
                             X = take (length (X (model s1)) - nat i) (X (model s1)),
                             calls = calls (model s1) @ replicate (nat d) Pop_1data
                                       @ replicate (nat i) Pop_1inducing\<rparr>\<rparr>"
    have e1: "nat d \<le> length (data (model s1))" and e2: "nat i \<le> length (X (model s1))"
      using True l1 by linarith+
    have u2: "undo_update s1 = Inr s2"
      unfolding s2_def by (rule undo_update_pops [OF c e1 e2])
    have "data_plus s2 = Some d" "ref_plus s2 = Some i"
      using c by (simp_all add: s2_def)
    moreover have "length (data (model s2)) = length (data (model s)) - 2 * nat d"
      "length (X (model s2)) = length (X (model s)) - 2 * nat i"
      using True l1 by (simp_all add: s2_def)
    moreover have "calls (model s2) = calls (model s)
                @ replicate (nat d) Pop_1data @ replicate (nat i) Pop_1inducing
                @ replicate (nat d) Pop_1data @ replicate (nat i) Pop_1inducing"
      by (simp add: s1_def s2_def)
    ultimately show ?thesis
      using True u2 by simp
  next
    case False
    then have "length (data (model s1)) < nat d \<or> length (X (model s1)) < nat i"
      using l1 assms(3,4) by linarith
    then have "undo_update s1 = Inl IndexError"
      by (rule undo_update_fails [OF c])
    then show ?thesis
      using False by simp
  qed
  have r: "\<forall>e s0 tf s3. update_model e s0 = Inr (tf, s3) \<longrightarrow>
                 data_plus s3 = Some (int (length (data (model s3))) - int (length (data (model s0))))
               \<and> ref_plus s3 = Some (int (length (X (model s3))) - int (length (X (model s0))))"
    using update_model_result(2,3) by blast
  show ?thesis
    using u1 c second r by blast
qed

theorem undo_update_twice_witness:
  "update_model eager_env grown_state = Inr (True, regrown_state)
   \<and> data_plus regrown_state = Some 1 \<and> ref_plus regrown_state = Some 2
   \<and> nat 1 \<le> length (data (model regrown_state)) \<and> nat 2 \<le> length (X (model regrown_state))
   \<and> (\<exists>s1 s2. undo_update regrown_state = Inr s1 \<and> undo_update s1 = Inr s2
         \<and> length (data (model s2)) = 0 \<and> length (X (model s2)) = 0)
   \<and> update_model eager_env start_state = Inr (True, grown_state)
   \<and> data_plus grown_state = Some 1 \<and> ref_plus grown_state = Some 2
   \<and> nat 1 \<le> length (data (model grown_state)) \<and> nat 2 \<le> length (X (model grown_state))
   \<and> (\<exists>s1. undo_update grown_state = Inr s1 \<and> data_plus s1 = Some 1 \<and> ref_plus s1 = Some 2
         \<and> undo_update s1 = Inl IndexError)
   \<and> data_plus undone_state = Some 1"
proof -
  have h: "data_plus regrown_state = Some 1" "ref_plus regrown_state = Some 2"
    "nat 1 \<le> length (data (model regrown_state))" "nat 2 \<le> length (X (model regrown_state))"
    by (simp_all add: fixture_defs)
  have l: "length (data (model regrown_state)) = 2" "length (X (model regrown_state)) = 4"
    by (simp_all add: fixture_defs)
  have a: "\<exists>s1 s2. undo_update regrown_state = Inr s1 \<and> undo_update s1 = Inr s2
         \<and> length (data (model s2)) = 0 \<and> length (X (model s2)) = 0"
    using undo_update_twice [OF h] unfolding l by simp blast
  have g: "data_plus grown_state = Some 1" "ref_plus grown_state = Some 2"
    "nat 1 \<le> length (data (model grown_state))" "nat 2 \<le> length (X (model grown_state))"
    by (simp_all add: fixture_defs)
  have k: "length (data (model grown_state)) = 1" "length (X (model grown_state)) = 2"
    by (simp_all add: fixture_defs)
  have b: "\<exists>s1. undo_update grown_state = Inr s1 \<and> data_plus s1 = Some 1 \<and> ref_plus s1 = Some 2
         \<and> undo_update s1 = Inl IndexError"
    using undo_update_twice [OF g] unfolding k by simp blast
  have "data_plus undone_state = Some 1"
    by (simp add: undone_state_def fixture_defs)
  then show ?thesis
    using h a g b update_model_eager_start update_model_eager_grown by blast
qed

text \<open>
  Claim C10 as stated fails: after the first update of a controller that started with an
  empty model, the first \<open>undo_update\<close> empties both sets and leaves the counts in place, and
  the second call raises.
\<close>

theorem undo_update_twice_counterexample:
  "update_model eager_env start_state = Inr (True, grown_state)
   \<and> undo_update grown_state = Inr undone_state
   \<and> data_plus undone_state = Some 1 \<and> ref_plus undone_state = Some 2
   \<and> undo_update undone_state = Inl IndexError"
proof -
  have a: "undo_update grown_state = Inr undone_state"
    using undo_after_update [OF update_model_eager_start]
    by (simp add: fixture_defs undone_state_def numeral_2_eq_2)
  have c: "data_plus undone_state = Some 1" "ref_plus undone_state = Some 2"
    by (simp_all add: undone_state_def fixture_defs)
  have "length (data (model undone_state)) < nat 1 \<or> length (X (model undone_state)) < nat 2"
    by (simp add: undone_state_def)
  then have "undo_update undone_state = Inl IndexError"
    by (rule undo_update_fails [OF c])
  then show ?thesis
    using a c update_model_eager_start by simp
qed

section \<open>The FAST and ULTRAFAST algorithms\<close>

text \<open>
  Claim C5, amended. Under the FAST algorithm a reference evaluation is performed, and the
  resulting structure is handed to the surrogate's \<open>add_1atoms\<close>, if and only if at least
  one of the inducing-point insertion attempts reported a change of at least the threshold
  (equivalently, an inducing point was accepted); the training data then grow by that
  structure only if the surrogate accepts it. When no attempt reached the threshold, there
  is no reference evaluation, no call of \<open>add_1atoms\<close>, and the training data are unchanged.
\<close>

theorem fast_reference_evaluation:
  "let s' = algorithm_fast e s;
       new = \<lparr>struct = live s, target_energy = ref_energy e (live s),
              target_forces = ref_forces e (live s)\<rparr>
   in (0 < fst (fast_loop e (loc (live s)) (0, s))
         \<longleftrightarrow> length (X (model s)) < length (X (model s')))
    \<and> (if 0 < fst (fast_loop e (loc (live s)) (0, s))
        then fp s' = fp s @ [step s]
           \<and> calls (model s') = calls (model s) @ map Add_1inducing (loc (live s)) @ [Add_1atoms new]
           \<and> data (model s') =
                (if atoms_accept e (data (model s)) (X (model s')) new (ediff s) (fdiff s)
                 then data (model s) @ [new] else data (model s))
        else fp s' = fp s
           \<and> calls (model s') = calls (model s) @ map Add_1inducing (loc (live s))
           \<and> data (model s') = data (model s))"
proof -
  obtain n s1 where f: "fast_loop e (loc (live s)) (0, s) = (n, s1)"
    by (cases "fast_loop e (loc (live s)) (0, s)")
  note fx = fast_loop_effect [OF f]
  have eq: "s1 = s\<lparr>model := model s1\<rparr>"
    using fx by simp
  have fr: "live s1 = live s" "fp s1 = fp s" "step s1 = step s" "ediff s1 = ediff s"
    "fdiff s1 = fdiff s" "fp_e s1 = fp_e s" "results s1 = results s"
    by (subst eq, simp)+
  show ?thesis
    using fx fr
    by (auto simp: algorithm_fast_def f Let_def snapshot_def model_add_1atoms_def add_1atoms_def)
qed

theorem fast_reference_evaluation_witness:
  "0 < fst (fast_loop eager_env (loc (live start_state)) (0, start_state))
   \<and> fp (algorithm_fast eager_env start_state) = [0]
   \<and> data (model (algorithm_fast eager_env start_state)) = [first_snap]
   \<and> \<not> 0 < fst (fast_loop quiet_env (loc (live start_state)) (0, start_state))
   \<and> fp (algorithm_fast quiet_env start_state) = []
   \<and> data (model (algorithm_fast quiet_env start_state)) = []"
proof -
  have hit: "0 < fst (fast_loop eager_env (loc (live start_state)) (0, start_state))"
    by (simp add: controller_defs fixture_defs)
  have miss: "\<not> 0 < fst (fast_loop quiet_env (loc (live start_state)) (0, start_state))"
    by (simp add: controller_defs fixture_defs)
  have a: "fp (algorithm_fast eager_env start_state) = fp start_state @ [step start_state]"
    and b: "data (model (algorithm_fast eager_env start_state)) =
              data (model start_state)
                @ [\<lparr>struct = live start_state, target_energy = ref_energy eager_env (live start_state),
                    target_forces = ref_forces eager_env (live start_state)\<rparr>]"
    using fast_reference_evaluation [of eager_env start_state] hit
    by (simp_all add: Let_def eager_env_def)
  have c: "fp (algorithm_fast quiet_env start_state) = fp start_state"
    and d: "data (model (algorithm_fast quiet_env start_state)) = data (model start_state)"
    using fast_reference_evaluation [of quiet_env start_state] miss
    by (simp_all add: Let_def)
  show ?thesis
    using hit miss a b c d by (simp add: fixture_defs)
qed

text \<open>
  Claim C5 as stated fails: here both insertion attempts reach the threshold and the
  reference evaluation is performed, but the surrogate declines the structure and the
  training data stay empty.
\<close>

theorem fast_insertion_counterexample:
  "fst (fast_loop picky_env (loc (live start_state)) (0, start_state)) = 2
   \<and> X (model (algorithm_fast picky_env start_state)) = [0, 1]
   \<and> fp (algorithm_fast picky_env start_state) = [0]
   \<and> calls (model (algorithm_fast picky_env start_state))
       = [Add_1inducing 0, Add_1inducing 1, Add_1atoms first_snap]
   \<and> data (model (algorithm_fast picky_env start_state)) = []"
  by (simp add: controller_defs fixture_defs)

text \<open>
  Claim C6, amended. When the ranked insertion loop of ULTRAFAST counted at least one
  inducing point, the algorithm first hands a fake snapshot (targets read from the
  surrogate-backed calculator, no reference evaluation) to \<open>add_1atoms\<close>. If and only if the
  number of training structures grew, it pops that entry, performs a reference evaluation
  on the same structure and hands the real snapshot to \<open>add_1atoms\<close>; the training data then
  grow by the real snapshot only if the surrogate accepts it, and are otherwise as before.
  If the fake snapshot did not grow the data, no reference evaluation is performed and the
  training data are unchanged.
\<close>

theorem ultrafast_speculates:
  assumes "ranked e s = Inr (n, s1)" and "0 < n"
  shows "let fake = \<lparr>struct = live s, target_energy = fst (cached e s1),
                     target_forces = pot_forces e (data (model s1)) (X (model s1)) (live s)\<rparr>;
             m3 = snd (add_1atoms e (model s1) fake (ediff s) (fdiff s));
             real = \<lparr>struct = live s, target_energy = ref_energy e (live s),
                     target_forces = ref_forces e (live s)\<rparr>
         in \<exists>s'. algorithm_ultrafast e s = Inr s' \<and> X (model s') = X (model s1) \<and>
              (if length (data (model s1)) < length (data m3)
               then calls (model s') = calls (model s1) @ [Add_1atoms fake, Pop_1data, Add_1atoms real]
                  \<and> fp s' = fp s @ [step s] \<and> fp_e s' = fp_e s @ [ref_energy e (live s)]
                  \<and> data (model s') =
                       (if atoms_accept e (data (model s)) (X (model s1)) real (ediff s) (fdiff s)
                        then data (model s) @ [real] else data (model s))
               else calls (model s') = calls (model s1) @ [Add_1atoms fake]
                  \<and> fp s' = fp s \<and> fp_e s' = fp_e s
                  \<and> data (model s') = data (model s))"
proof -
  note fx = ranked_frame [OF assms(1)]
  have eq: "s1 = s\<lparr>model := model s1\<rparr>"
    using fx by simp
  have fr: "live s1 = live s" "fp s1 = fp s" "step s1 = step s" "ediff s1 = ediff s"
    "fdiff s1 = fdiff s" "fp_e s1 = fp_e s" "results s1 = results s"
    by (subst eq, simp)+
  have d: "data (model s1) = data (model s)"
    using fx by simp
  show ?thesis
    using fr d assms(2)
    by (auto simp: algorithm_ultrafast_def assms(1) Let_def snapshot_def cached_def
        model_add_1atoms_def add_1atoms_def pop_1data_def split: option.splits)
qed

theorem ultrafast_speculates_witness:
  "ranked eager_env start_state = Inr (2, ranked_state) \<and> (0::nat) < 2
   \<and> (\<exists>s'. algorithm_ultrafast eager_env start_state = Inr s' \<and> X (model s') = [0, 1]
         \<and> calls (model s') = [Add_1inducing 0, Add_1inducing 1,
                                Add_1atoms fake_snap, Pop_1data, Add_1atoms first_snap]
         \<and> fp s' = [0] \<and> fp_e s' = [2] \<and> data (model s') = [first_snap])
   \<and> ranked picky_env start_state = Inr (2, ranked_state)
   \<and> (\<exists>s'. algorithm_ultrafast picky_env start_state = Inr s' \<and> X (model s') = [0, 1]
         \<and> calls (model s') = [Add_1inducing 0, Add_1inducing 1, Add_1atoms fake_snap]
         \<and> fp s' = [] \<and> fp_e s' = [] \<and> data (model s') = [])"
proof -
  have r1: "ranked eager_env start_state = Inr (2, ranked_state)"
    by (simp add: ranked_def argsort_desc_def controller_defs fixture_defs upt_rec)
  have r2: "ranked picky_env start_state = Inr (2, ranked_state)"
    by (simp add: ranked_def argsort_desc_def controller_defs fixture_defs upt_rec)
  have a: "\<exists>s'. algorithm_ultrafast eager_env start_state = Inr s' \<and> X (model s') = [0, 1]
         \<and> calls (model s') = [Add_1inducing 0, Add_1inducing 1,
                                Add_1atoms fake_snap, Pop_1data, Add_1atoms first_snap]
         \<and> fp s' = [0] \<and> fp_e s' = [2] \<and> data (model s') = [first_snap]"
    using ultrafast_speculates [OF r1]
    by (simp add: Let_def cached_def add_1atoms_def fixture_defs)
  have b: "\<exists>s'. algorithm_ultrafast picky_env start_state = Inr s' \<and> X (model s') = [0, 1]
         \<and> calls (model s') = [Add_1inducing 0, Add_1inducing 1, Add_1atoms fake_snap]
         \<and> fp s' = [] \<and> fp_e s' = [] \<and> data (model s') = []"
    using ultrafast_speculates [OF r2]
    by (simp add: Let_def cached_def add_1atoms_def fixture_defs)
  show ?thesis
    using r1 r2 a b by simp
qed

text \<open>
  Claim C6 as stated fails: here the fake snapshot grows the training data, it is popped and
  the reference evaluation is made, but the surrogate declines the real snapshot, so the real
  snapshot is not added and the training data stay empty.
\<close>

theorem ultrafast_real_declined_counterexample:
  "ranked fickle_env start_state = Inr (2, ranked_state)
   \<and> algorithm_ultrafast fickle_env start_state = Inr declined_state
   \<and> fp declined_state = [0]
   \<and> calls (model declined_state)
       = [Add_1inducing 0, Add_1inducing 1, Add_1atoms fake_snap, Pop_1data, Add_1atoms first_snap]
   \<and> data (model declined_state) = []"
proof -
  have "algorithm_ultrafast fickle_env start_state = Inr declined_state"
    unfolding algorithm_ultrafast_def ranked_fickle_start
    by (simp add: controller_defs fixture_defs pop_1data_def)
  then show ?thesis
    using ranked_fickle_start by (simp add: declined_state_def)
qed

section \<open>What the run until a number of updates counts\<close>




section \<open>Pair kernels\<close>



text \<open>
  Claim C8. With \<open>eta = 1\<close> the value and the left gradient of \<open>RepulsiveCoreSimilarity\<close>
  are those of \<open>CoulombPairSimilarity\<close>, for all structures with positive pair distances.
\<close>

theorem repulsive_eta_one:
  assumes "\<forall>row\<in>set (selected p). 0 < row_d row" and "\<forall>row\<in>set (selected q). 0 < row_d row"
  shows "repulsive_func K 1 p q = coulomb_func K p q
         \<and> repulsive_leftgrad K 1 p q = coulomb_leftgrad K p q"
proof -
  have pos: "(x * y) powr 1 = x * y"
    if "x \<in> set (map row_d (selected p))" and "y \<in> set (map row_d (selected q))" for x y
  proof -
    have "0 < x" and "0 < y"
      using that assms by auto
    then have "0 < x * y"
      by simp
    then show ?thesis
      by simp
  qed
  have m1: "matrix (\<lambda>x y. kern K x y / (x * y) powr 1) (map row_d (selected p)) (map row_d (selected q))
          = matrix (\<lambda>x y. kern K x y / (x * y)) (map row_d (selected p)) (map row_d (selected q))"
    by (rule matrix_cong) (simp only: pos mult_1)
  have m2: "matrix (\<lambda>x y. (kern_leftgrad K x y - 1 * kern K x y / x) / (x * y) powr 1)
              (map row_d (selected p)) (map row_d (selected q))
          = matrix (\<lambda>x y. (kern_leftgrad K x y - kern K x y / x) / (x * y))
              (map row_d (selected p)) (map row_d (selected q))"
    by (rule matrix_cong) (simp only: pos mult_1)
  show ?thesis
    by (simp only: repulsive_func_def coulomb_func_def repulsive_leftgrad_def
        coulomb_leftgrad_def Let_def m1 m2)
qed

theorem repulsive_eta_one_witness:
  "repulsive_func linear_kernel 1 two_atoms two_atoms = 6 / 5
   \<and> coulomb_func linear_kernel two_atoms two_atoms = 6 / 5
   \<and> repulsive_leftgrad linear_kernel 1 two_atoms two_atoms
       = Inr [(3 / 125, 4 / 125, 0), (- (3 / 125), - (4 / 125), 0)]
   \<and> coulomb_leftgrad linear_kernel two_atoms two_atoms
       = Inr [(3 / 125, 4 / 125, 0), (- (3 / 125), - (4 / 125), 0)]"
proof -
  have h: "\<forall>row\<in>set (selected two_atoms). 0 < row_d row"
    by (simp add: two_atoms_def)
  have c1: "coulomb_func linear_kernel two_atoms two_atoms = 6 / 5"
    by (simp add: kernel_defs)
  have c2: "coulomb_leftgrad linear_kernel two_atoms two_atoms
              = Inr [(3 / 125, 4 / 125, 0), (- (3 / 125), - (4 / 125), 0)]"
    by (simp add: kernel_defs)
  show ?thesis
    using repulsive_eta_one [OF h h, of linear_kernel] c1 c2 by simp
qed

text \<open>
  Claim C9. For nonzero relative positions the log-distance descriptor returns, for each
  \<open>r\<close>, the logarithm of its length and the gradient \<open>r\<close> divided by the squared length; for
  \<open>r = (3, 4, 0)\<close> these are \<open>ln 5\<close> and \<open>(3, 4, 0) / 25\<close>.
\<close>

theorem logdistance_descriptor_value:
  assumes "\<forall>r\<in>set rs. r \<noteq> (0, 0, 0)"
  shows "logdistance_descriptor rs =
           (map (\<lambda>(x, y, z). ln (sqrt (x\<^sup>2 + y\<^sup>2 + z\<^sup>2))) rs,
            map (\<lambda>(x, y, z). (x / (x\<^sup>2 + y\<^sup>2 + z\<^sup>2), y / (x\<^sup>2 + y\<^sup>2 + z\<^sup>2),
                              z / (x\<^sup>2 + y\<^sup>2 + z\<^sup>2))) rs)"
proof -
  have z: "zip rs (map norm3 rs) = map (\<lambda>r. (r, norm3 r)) rs"
    by (induction rs) simp_all
  have g: "sdiv r ((norm3 r)\<^sup>2)
             = (case r of (x, y, z) \<Rightarrow> (x / (x\<^sup>2 + y\<^sup>2 + z\<^sup>2), y / (x\<^sup>2 + y\<^sup>2 + z\<^sup>2),
                              z / (x\<^sup>2 + y\<^sup>2 + z\<^sup>2)))" for r
    by (cases r) (simp add: sdiv_def norm3_def)
  have v: "ln (norm3 r) = (case r of (x, y, z) \<Rightarrow> ln (sqrt (x\<^sup>2 + y\<^sup>2 + z\<^sup>2)))" for r
    by (cases r) (simp add: norm3_def)
  show ?thesis
    by (simp add: logdistance_descriptor_def Let_def z g v comp_def)
qed

theorem logdistance_descriptor_value_witness:
  "(3, 4, 0) \<noteq> ((0, 0, 0) :: vec3)
   \<and> logdistance_descriptor [(3, 4, 0)] = ([ln 5], [(3 / 25, 4 / 25, 0)])"
proof -
  have h: "\<forall>r\<in>set [(3, 4, 0)]. r \<noteq> ((0, 0, 0) :: vec3)"
    by simp
  have s: "sqrt 25 = 5"
    by (rule real_sqrt_unique) simp_all
  show ?thesis
    using logdistance_descriptor_value [OF h] by (simp add: s)
qed

end
